theory Spec2Isabelle
  imports Complex_Main "HOL-Library.Word" "HOL-Library.Sublist"
begin

section \<open>JavaScript strings\<close>

text \<open>
  A JavaScript string is a sequence of 16-bit code units. \<open>js\<close> turns an ASCII literal
  into such a sequence, so that examples stay readable.
\<close>

type_synonym jschar = "16 word"
type_synonym jsstr = "jschar list"

definition js :: "string \<Rightarrow> jsstr" where
  "js s = map of_char s"

definition TAB :: jschar where "TAB = 0x09"
definition LF :: jschar where "LF = 0x0A"
definition CR :: jschar where "CR = 0x0D"
definition SPACE :: jschar where "SPACE = 0x20"

text \<open>
  The code units that \<^verbatim>\<open>String.prototype.trim\<close> strips: ECMAScript's WhiteSpace
  and LineTerminator productions.
\<close>

definition isWhiteSpace :: "jschar \<Rightarrow> bool" where
  "isWhiteSpace c \<longleftrightarrow>
     c = 0x09 \<or> c = 0x0A \<or> c = 0x0B \<or> c = 0x0C \<or> c = 0x0D \<or> c = 0x20 \<or> c = 0xA0 \<or>
     c = 0x1680 \<or> (0x2000 \<le> c \<and> c \<le> 0x200A) \<or> c = 0x2028 \<or> c = 0x2029 \<or>
     c = 0x202F \<or> c = 0x205F \<or> c = 0x3000 \<or> c = 0xFEFF"

text \<open>
  Surrogate code units. A string is well formed (\<^verbatim>\<open>isWellFormed\<close>) when every
  high surrogate is followed by a low one and every low surrogate follows a high one;
  \<^verbatim>\<open>toWellFormed\<close> replaces each unpaired surrogate by U+FFFD. Encoding a string
  as UTF-8 and decoding it again gives \<^verbatim>\<open>toWellFormed\<close> of it.
\<close>

definition isHighSurrogate :: "jschar \<Rightarrow> bool" where
  "isHighSurrogate c \<longleftrightarrow> 0xD800 \<le> c \<and> c \<le> 0xDBFF"

definition isLowSurrogate :: "jschar \<Rightarrow> bool" where
  "isLowSurrogate c \<longleftrightarrow> 0xDC00 \<le> c \<and> c \<le> 0xDFFF"

definition isSurrogate :: "jschar \<Rightarrow> bool" where
  "isSurrogate c \<longleftrightarrow> isHighSurrogate c \<or> isLowSurrogate c"

fun isWellFormed :: "jsstr \<Rightarrow> bool" where
  "isWellFormed [] = True"
| "isWellFormed [c] = (\<not> isHighSurrogate c \<and> \<not> isLowSurrogate c)"
| "isWellFormed (c # d # cs) =
     (if isHighSurrogate c then isLowSurrogate d \<and> isWellFormed cs
      else \<not> isLowSurrogate c \<and> isWellFormed (d # cs))"

fun toWellFormed :: "jsstr \<Rightarrow> jsstr" where
  "toWellFormed [] = []"
| "toWellFormed [c] = (if isHighSurrogate c \<or> isLowSurrogate c then [0xFFFD] else [c])"
| "toWellFormed (c # d # cs) =
     (if isHighSurrogate c then
        (if isLowSurrogate d then c # d # toWellFormed cs else 0xFFFD # toWellFormed (d # cs))
      else if isLowSurrogate c then 0xFFFD # toWellFormed (d # cs)
      else c # toWellFormed (d # cs))"

text \<open>The case folding of a regular expression with the flag \<^verbatim>\<open>i\<close>, on ASCII letters.\<close>

definition lowerAscii :: "jschar \<Rightarrow> jschar" where
  "lowerAscii c = (if 0x41 \<le> c \<and> c \<le> 0x5A then c + 0x20 else c)"

definition trim :: "jsstr \<Rightarrow> jsstr" where
  "trim s = rev (dropWhile isWhiteSpace (rev (dropWhile isWhiteSpace s)))"

text \<open>
  \<^verbatim>\<open>s.split(sep)\<close> for a one-character separator: cut at the first separator and
  go on with the rest; a string without separator is the only piece.
\<close>

function split_str :: "jschar \<Rightarrow> jsstr \<Rightarrow> jsstr list" where
  "split_str sep s =
     (case dropWhile (\<lambda>c. c \<noteq> sep) s of
        [] \<Rightarrow> [s]
      | _ # rest \<Rightarrow> takeWhile (\<lambda>c. c \<noteq> sep) s # split_str sep rest)"
  by pat_completeness auto
termination
proof (relation "measure (\<lambda>(sep, s). length s)")
  show "wf (measure (\<lambda>(sep, s). length s))" by simp
next
  fix sep :: jschar and s :: jsstr and x rest
  assume "dropWhile (\<lambda>c. c \<noteq> sep) s = x # rest"
  then have "length (dropWhile (\<lambda>c. c \<noteq> sep) s) = Suc (length rest)" by simp
  moreover have "length (dropWhile (\<lambda>c. c \<noteq> sep) s) \<le> length s"
    by (rule length_dropWhile_le)
  ultimately show "((sep, rest), (sep, s)) \<in> measure (\<lambda>(sep, s). length s)" by simp
qed

declare split_str.simps [simp del]

text \<open>\<^verbatim>\<open>xs.join(sep)\<close>.\<close>

fun join_str :: "jsstr \<Rightarrow> jsstr list \<Rightarrow> jsstr" where
  "join_str sep [] = []"
| "join_str sep [x] = x"
| "join_str sep (x # y # ys) = x @ sep @ join_str sep (y # ys)"

text \<open>\<^verbatim>\<open>s.indexOf(c)\<close>; \<open>None\<close> is the result -1.\<close>

definition indexOf :: "jsstr \<Rightarrow> jschar \<Rightarrow> nat option" where
  "indexOf s c = (if c \<in> set s then Some (length (takeWhile (\<lambda>x. x \<noteq> c) s)) else None)"

section \<open>Registry codec\<close>

record entry =
  uuid :: jsstr
  label :: jsstr

text \<open>
  The arrow function of \<^verbatim>\<open>loadEntries\<close> that turns a trimmed, non-empty line into
  an entry or null.
\<close>

definition parseLine :: "jsstr \<Rightarrow> entry option" where
  "parseLine line =
     (case indexOf line TAB of
        None \<Rightarrow> None
      | Some tabIndex \<Rightarrow>
          (let u = trim (take tabIndex line);
               l = trim (drop (tabIndex + 1) line)
           in if u = [] \<or> l = [] then None else Some \<lparr>uuid = u, label = l\<rparr>))"

text \<open>
  The pipeline of \<^verbatim>\<open>loadEntries\<close> on the text of the file:
  \<^verbatim>\<open>content.split("\n").map(trim).filter(Boolean).map(parse).filter(Boolean)\<close>.
\<close>

definition parseContent :: "jsstr \<Rightarrow> entry list" where
  "parseContent content =
     map the (filter (\<lambda>r. r \<noteq> None)
       (map parseLine (filter (\<lambda>line. line \<noteq> []) (map trim (split_str LF content)))))"

text \<open>\<^verbatim>\<open>label.replace(/[\t\n\r]+/g, " ")\<close>: every maximal run becomes one space.\<close>

definition isTabNlCr :: "jschar \<Rightarrow> bool" where
  "isTabNlCr c \<longleftrightarrow> c = TAB \<or> c = LF \<or> c = CR"

function replaceRuns :: "jsstr \<Rightarrow> jsstr" where
  "replaceRuns [] = []"
| "replaceRuns (c # cs) =
     (if isTabNlCr c then SPACE # replaceRuns (dropWhile isTabNlCr cs)
      else c # replaceRuns cs)"
  by pat_completeness auto
termination
proof (relation "measure length")
  show "wf (measure length)" by simp
next
  fix c :: jschar and cs :: jsstr
  have "length (dropWhile isTabNlCr cs) \<le> length cs" by (rule length_dropWhile_le)
  then show "(dropWhile isTabNlCr cs, c # cs) \<in> measure length" by simp
next
  fix c :: jschar and cs :: jsstr
  show "(cs, c # cs) \<in> measure length" by simp
qed

definition sanitizeLabel :: "jsstr \<Rightarrow> jsstr" where
  "sanitizeLabel l = trim (replaceRuns l)"

text \<open>The line of an entry and the text \<^verbatim>\<open>writeEntries\<close> writes for a non-empty list.\<close>

definition entryLine :: "entry \<Rightarrow> jsstr" where
  "entryLine e = uuid e @ [TAB] @ label e"

definition serializeContent :: "entry list \<Rightarrow> jsstr" where
  "serializeContent entries = join_str [LF] (map entryLine entries) @ [LF]"


section \<open>File system\<close>

text \<open>
  A resolved absolute directory (what \<^verbatim>\<open>path.resolve\<close> and \<^verbatim>\<open>process.cwd\<close>
  return) is the list of its components below the root; the root is the empty list.
  \<^verbatim>\<open>path.dirname\<close> drops the last component and maps the root to itself,
  \<^verbatim>\<open>path.join(dir, name)\<close> adds one component.
\<close>

type_synonym path = "jsstr list"

definition dirname :: "path \<Rightarrow> path" where
  "dirname p = butlast p"

definition join_path :: "path \<Rightarrow> jsstr \<Rightarrow> path" where
  "join_path d name = d @ [name]"

definition CDX_FILENAME :: jsstr where
  "CDX_FILENAME = js ''.cdx''"

text \<open>
  A file holds the text that its bytes decode to as UTF-8, which is what
  \<^verbatim>\<open>readFileSync(p, "utf8")\<close> returns. Writing a string encodes it as UTF-8, so
  the file then holds \<open>toWellFormed\<close> of the string.
\<close>

datatype node = File jsstr | Dir

type_synonym filesys = "path \<Rightarrow> node option"

datatype fs_error = ENOENT | EISDIR | ENOTDIR

definition existsSync :: "filesys \<Rightarrow> path \<Rightarrow> bool" where
  "existsSync fs p \<longleftrightarrow> fs p \<noteq> None"

definition readFileSync :: "filesys \<Rightarrow> path \<Rightarrow> fs_error + jsstr" where
  "readFileSync fs p =
     (case fs p of None \<Rightarrow> Inl ENOENT | Some Dir \<Rightarrow> Inl EISDIR | Some (File c) \<Rightarrow> Inr c)"

text \<open>
  A file that does not exist yet can be created only in a directory that exists; the
  root always does.
\<close>

definition createError :: "filesys \<Rightarrow> path \<Rightarrow> fs_error option" where
  "createError fs p =
     (if p = [] then Some EISDIR
      else if dirname p = [] then None
      else (case fs (dirname p) of
              Some Dir \<Rightarrow> None
            | Some (File c) \<Rightarrow> Some ENOTDIR
            | None \<Rightarrow> Some ENOENT))"

definition writeFileSync :: "filesys \<Rightarrow> path \<Rightarrow> jsstr \<Rightarrow> fs_error + filesys" where
  "writeFileSync fs p c =
     (case fs p of
        Some Dir \<Rightarrow> Inl EISDIR
      | Some (File old) \<Rightarrow> Inr (fs(p \<mapsto> File (toWellFormed c)))
      | None \<Rightarrow>
          (case createError fs p of
             Some e \<Rightarrow> Inl e
           | None \<Rightarrow> Inr (fs(p \<mapsto> File (toWellFormed c)))))"

definition appendFileSync :: "filesys \<Rightarrow> path \<Rightarrow> jsstr \<Rightarrow> fs_error + filesys" where
  "appendFileSync fs p c =
     (case fs p of
        Some Dir \<Rightarrow> Inl EISDIR
      | Some (File old) \<Rightarrow> Inr (fs(p \<mapsto> File (old @ toWellFormed c)))
      | None \<Rightarrow>
          (case createError fs p of
             Some e \<Rightarrow> Inl e
           | None \<Rightarrow> Inr (fs(p \<mapsto> File (toWellFormed c)))))"

definition unlinkSync :: "filesys \<Rightarrow> path \<Rightarrow> fs_error + filesys" where
  "unlinkSync fs p =
     (case fs p of
        None \<Rightarrow> Inl ENOENT
      | Some Dir \<Rightarrow> Inl EISDIR
      | Some (File c) \<Rightarrow> Inr (fs(p := None)))"

section \<open>Directory resolver\<close>

record found =
  dir :: path
  filePath :: path

text \<open>
  \<^verbatim>\<open>findCdxFile\<close>: the \<^verbatim>\<open>while (true)\<close> loop as a recursion on the directory;
  it ends because the parent of a directory other than the root is shorter.
\<close>

function findCdxFile :: "filesys \<Rightarrow> path \<Rightarrow> found option" where
  "findCdxFile fs d =
     (let candidate = join_path d CDX_FILENAME
      in if existsSync fs candidate then Some \<lparr>dir = d, filePath = candidate\<rparr>
         else (let parent = dirname d
               in if parent = d then None else findCdxFile fs parent))"
  by pat_completeness auto
termination
proof (relation "measure (\<lambda>(fs, d). length d)")
  show "wf (measure (\<lambda>(fs, d). length d))" by simp
next
  fix fs :: filesys and d candidate parent :: path
  assume "parent = dirname d" and "parent \<noteq> d"
  then have "d \<noteq> []" by (auto simp: dirname_def)
  with \<open>parent = dirname d\<close>
  show "((fs, parent), (fs, d)) \<in> measure (\<lambda>(fs, d). length d)"
    by (simp add: dirname_def)
qed

declare findCdxFile.simps [simp del]

section \<open>Loading and writing the registry\<close>

text \<open>
  \<^verbatim>\<open>loadEntries(filePath)\<close>. The argument is \<open>None\<close> for null or undefined;
  a path built by \<^verbatim>\<open>path.join\<close> is never the empty string, the other falsy value.
  An exception of \<^verbatim>\<open>readFileSync\<close> is the \<open>Inl\<close> result.
\<close>

definition loadEntries :: "filesys \<Rightarrow> path option \<Rightarrow> fs_error + entry list" where
  "loadEntries fs fp =
     (case fp of
        None \<Rightarrow> Inr []
      | Some p \<Rightarrow>
          if \<not> existsSync fs p then Inr []
          else (case readFileSync fs p of
                  Inl e \<Rightarrow> Inl e
                | Inr content \<Rightarrow> Inr (parseContent content)))"

definition appendEntry :: "filesys \<Rightarrow> path \<Rightarrow> entry \<Rightarrow> fs_error + filesys" where
  "appendEntry fs p e = appendFileSync fs p (uuid e @ [TAB] @ label e @ [LF])"

definition writeEntries :: "filesys \<Rightarrow> path \<Rightarrow> entry list \<Rightarrow> fs_error + filesys" where
  "writeEntries fs p entries =
     (if entries = [] then (if existsSync fs p then unlinkSync fs p else Inr fs)
      else writeFileSync fs p (serializeContent entries))"

section \<open>Session discovery\<close>

text \<open>
  \<^verbatim>\<open>collectSessionFiles\<close> leaves a list of objects with a path and a modification
  time, in the order of the directory walk; \<^verbatim>\<open>getLatestSessionSnapshot\<close> adds an
  id to the newest one. Modification times are finite doubles, compared as the reals
  they denote.
\<close>

record session_file =
  path :: path
  mtimeMs :: real

record snapshot = session_file +
  snap_id :: "jsstr option"

text \<open>
  What \<^verbatim>\<open>JSON.parse\<close> of the first line of a session file gives: nothing usable
  (the read or the parse throws, or the value is not an object), or an object with its
  \<^verbatim>\<open>type\<close> and \<^verbatim>\<open>payload?.id\<close>, when they are strings.
\<close>

datatype session_head = NoHead | Head "jsstr option" "jsstr option"

text \<open>A string or null used as a condition: null and the empty string are falsy.\<close>

definition truthy :: "jsstr option \<Rightarrow> bool" where
  "truthy v \<longleftrightarrow> v \<noteq> None \<and> v \<noteq> Some []"

definition isHexDigit :: "jschar \<Rightarrow> bool" where
  "isHexDigit c \<longleftrightarrow>
     (0x30 \<le> c \<and> c \<le> 0x39) \<or> (0x61 \<le> c \<and> c \<le> 0x66) \<or> (0x41 \<le> c \<and> c \<le> 0x46)"

text \<open>The shape \<^verbatim>\<open>[0-9a-f]{8}-[0-9a-f]{4}-[0-9a-f]{4}-[0-9a-f]{4}-[0-9a-f]{12}\<close>, case-insensitive.\<close>

definition uuidShaped :: "jsstr \<Rightarrow> bool" where
  "uuidShaped s \<longleftrightarrow>
     length s = 36 \<and>
     (\<forall>i \<in> set [0 ..< 36].
        if i \<in> {8, 13, 18, 23} then s ! i = 0x2D else isHexDigit (s ! i))"

text \<open>
  \<^verbatim>\<open>extractIdFromFilename\<close>: the pattern is anchored at the end of the path and holds
  no separator, so it matches inside the last component; with the flag \<^verbatim>\<open>i\<close> the
  extension matches in either case, as the hexadecimal digits do.
\<close>

definition extractIdFromFilename :: "path \<Rightarrow> jsstr option" where
  "extractIdFromFilename p =
     (if p = [] then None
      else (let name = last p; n = length name
            in if 42 \<le> n \<and> map lowerAscii (drop (n - 6) name) = js ''.jsonl'' \<and>
                  uuidShaped (take 36 (drop (n - 42) name))
               then Some (take 36 (drop (n - 42) name)) else None))"

definition readSessionIdFromFile :: "(path \<Rightarrow> session_head) \<Rightarrow> path \<Rightarrow> jsstr option" where
  "readSessionIdFromFile heads p =
     (case heads p of
        Head (Some t) (Some i) \<Rightarrow>
          if t = js ''session_meta'' \<and> i \<noteq> [] then Some i else extractIdFromFilename p
      | _ \<Rightarrow> extractIdFromFilename p)"

text \<open>
  \<^verbatim>\<open>getLatestSessionSnapshot\<close>: \<^verbatim>\<open>Array.prototype.sort\<close> is stable, as
  \<open>sort_key\<close> is.
\<close>

definition getLatestSessionSnapshot ::
  "session_file list \<Rightarrow> (path \<Rightarrow> session_head) \<Rightarrow> snapshot option" where
  "getLatestSessionSnapshot files heads =
     (if files = [] then None
      else (let latest = last (sort_key mtimeMs files)
            in Some \<lparr>path = path latest, mtimeMs = mtimeMs latest,
                     snap_id = readSessionIdFromFile heads (path latest)\<rparr>))"

text \<open>
  A line of the history log after \<^verbatim>\<open>JSON.parse\<close>: the parse throws, or it gives a
  record with its \<^verbatim>\<open>session_id\<close> (\<open>None\<close> when the record is falsy or has none).
\<close>

datatype history_line = Unparsable | Parsed "jsstr option"

text \<open>
  The loops \<^verbatim>\<open>for (let i = lines.length - 1; i >= 0; i -= 1)\<close>; the second argument
  is \<open>i + 1\<close>.
\<close>

fun lastIdFrom :: "history_line list \<Rightarrow> nat \<Rightarrow> jsstr option" where
  "lastIdFrom lines 0 = None"
| "lastIdFrom lines (Suc i) =
     (case lines ! i of
        Parsed sid \<Rightarrow> if truthy sid then sid else lastIdFrom lines i
      | Unparsable \<Rightarrow> lastIdFrom lines i)"

fun newestIdFrom :: "jsstr \<Rightarrow> history_line list \<Rightarrow> nat \<Rightarrow> jsstr option" where
  "newestIdFrom previousId lines 0 = None"
| "newestIdFrom previousId lines (Suc i) =
     (case lines ! i of
        Parsed sid \<Rightarrow>
          if truthy sid \<and> sid \<noteq> Some previousId then sid
          else newestIdFrom previousId lines i
      | Unparsable \<Rightarrow> newestIdFrom previousId lines i)"

text \<open>The history log is \<open>None\<close> when the file does not exist.\<close>

definition getLastHistorySessionId :: "history_line list option \<Rightarrow> jsstr option" where
  "getLastHistorySessionId history =
     (case history of None \<Rightarrow> None | Some lines \<Rightarrow> lastIdFrom lines (length lines))"

definition getNewestHistorySessionIdSince ::
  "jsstr \<Rightarrow> history_line list option \<Rightarrow> jsstr option" where
  "getNewestHistorySessionIdSince previousId history =
     (case history of
        None \<Rightarrow> None
      | Some lines \<Rightarrow> newestIdFrom previousId lines (length lines))"

section \<open>Running the external tool\<close>

text \<open>
  The result of \<^verbatim>\<open>spawnSync\<close>: an error (the flag says whether its code is ENOENT)
  or the exit status of the child, null when a signal ended it.
\<close>

datatype spawn_result = SpawnError bool | Finished "int option"

datatype control = Return | Exit int

datatype message =
    CodexNotAvailable
  | CouldNotDetermine
  | NoCdxFileFound
  | NoSessionsToRemove
  | Uncaught fs_error

definition statusOr1 :: "int option \<Rightarrow> int" where
  "statusOr1 st = (case st of None \<Rightarrow> 1 | Some c \<Rightarrow> c)"

text \<open>
  \<^verbatim>\<open>runCodex\<close>, given the platform and what the two \<^verbatim>\<open>spawnSync\<close> calls return;
  \<open>Exit c\<close> is \<^verbatim>\<open>process.exit(c)\<close>.
\<close>

definition runCodex :: "bool \<Rightarrow> spawn_result \<Rightarrow> spawn_result \<Rightarrow> message list \<times> control" where
  "runCodex win32 result psResult =
     (case result of
        SpawnError enoent \<Rightarrow>
          (if enoent \<and> win32 then
             (case psResult of
                Finished st \<Rightarrow> if st \<noteq> Some 0 then ([], Exit (statusOr1 st)) else ([], Return)
              | SpawnError e \<Rightarrow> ([CodexNotAvailable], Exit 1))
           else ([CodexNotAvailable], Exit 1))
      | Finished st \<Rightarrow> if st \<noteq> Some 0 then ([], Exit (statusOr1 st)) else ([], Return))"

section \<open>Orchestrator\<close>

text \<open>
  The state the program reads and writes: the files of the registry, the session files
  of the external tool with the heads of their first lines, and its history log.
\<close>

record world =
  files :: filesys
  sessionFiles :: "session_file list"
  sessionHeads :: "path \<Rightarrow> session_head"
  history :: "history_line list option"

text \<open>What one run of the external tool does: the results of the spawns and the state it leaves.\<close>

record child =
  win32 :: bool
  result :: spawn_result
  psResult :: spawn_result
  after :: world

record options =
  here :: bool
  forceNew :: bool

datatype selection = SelNew | SelResume entry

text \<open>The answer of the user to the prompts of \<^verbatim>\<open>selectSession\<close>.\<close>

datatype pick = PickNew | PickEntry nat | PickNothing

definition selectSession :: "entry list \<Rightarrow> pick \<Rightarrow> selection option" where
  "selectSession entries answer =
     (if entries = [] then Some SelNew
      else (case answer of
              PickNew \<Rightarrow> Some SelNew
            | PickEntry i \<Rightarrow> if i < length entries then Some (SelResume (entries ! i)) else None
            | PickNothing \<Rightarrow> None))"

record resolved =
  foundCdx :: "found option"
  workDir :: path
  cdxPath :: path
  entries :: "fs_error + entry list"

text \<open>The first four lines of \<^verbatim>\<open>runDefault\<close>.\<close>

definition resolveDefault :: "filesys \<Rightarrow> path \<Rightarrow> bool \<Rightarrow> resolved" where
  "resolveDefault fs startDir hereOpt =
     (let fnd = (if hereOpt then None else findCdxFile fs startDir)
      in \<lparr>foundCdx = fnd,
          workDir = (case fnd of Some f \<Rightarrow> dir f | None \<Rightarrow> startDir),
          cdxPath = (case fnd of Some f \<Rightarrow> filePath f | None \<Rightarrow> join_path startDir CDX_FILENAME),
          entries = loadEntries fs (map_option filePath fnd)\<rparr>)"

text \<open>
  The computation of \<^verbatim>\<open>newId\<close> in \<^verbatim>\<open>runDefault\<close>, from the history id and the
  snapshot taken before the child ran, the snapshot taken after it, and the history log
  as it is after it.
\<close>

definition discoverNewId ::
  "jsstr option \<Rightarrow> snapshot option \<Rightarrow> snapshot option \<Rightarrow> history_line list option \<Rightarrow> jsstr option" where
  "discoverNewId previousHistoryId previousSession latestSession historyAfter =
     (case latestSession of
        Some latest \<Rightarrow>
          if truthy (snap_id latest) \<and>
             (case previousSession of
                None \<Rightarrow> True
              | Some previous \<Rightarrow>
                  path latest \<noteq> path previous \<or> mtimeMs latest > mtimeMs previous)
          then snap_id latest
          else (case previousHistoryId of
                  Some h \<Rightarrow> if h \<noteq> [] then getNewestHistorySessionIdSince h historyAfter else None
                | None \<Rightarrow> None)
      | None \<Rightarrow>
          (case previousHistoryId of
             Some h \<Rightarrow> if h \<noteq> [] then getNewestHistorySessionIdSince h historyAfter else None
           | None \<Rightarrow> None))"

record outcome =
  control :: control
  console :: "message list"
  filesAfter :: filesys

text \<open>
  \<^verbatim>\<open>runDefault\<close>. \<open>codex\<close> is the behaviour of the external tool for given arguments,
  working directory and state. An exception leaves through \<^verbatim>\<open>main().catch\<close>,
  which prints it and exits with 1.
\<close>

definition runDefault ::
  "(jsstr list \<Rightarrow> path \<Rightarrow> world \<Rightarrow> child) \<Rightarrow> world \<Rightarrow> path \<Rightarrow> options \<Rightarrow> pick \<Rightarrow> jsstr option \<Rightarrow> outcome" where
  "runDefault codex w startDir opts answer labelInput =
     (let r = resolveDefault (files w) startDir (here opts)
      in case entries r of
           Inl e \<Rightarrow> \<lparr>control = Exit 1, console = [Uncaught e], filesAfter = files w\<rparr>
         | Inr es \<Rightarrow>
            (case (if forceNew opts then Some SelNew else selectSession es answer) of
               None \<Rightarrow> \<lparr>control = Return, console = [], filesAfter = files w\<rparr>
             | Some SelNew \<Rightarrow>
                 if \<not> truthy labelInput
                 then \<lparr>control = Return, console = [], filesAfter = files w\<rparr>
                 else
                   (let lbl = sanitizeLabel (the labelInput);
                        previousHistoryId = getLastHistorySessionId (history w);
                        previousSession = getLatestSessionSnapshot (sessionFiles w) (sessionHeads w);
                        c = codex [] (workDir r) w;
                        w' = after c
                    in case runCodex (win32 c) (result c) (psResult c) of
                         (msgs, Exit code) \<Rightarrow>
                           \<lparr>control = Exit code, console = msgs, filesAfter = files w'\<rparr>
                       | (msgs, Return) \<Rightarrow>
                          (let latestSession =
                                 getLatestSessionSnapshot (sessionFiles w') (sessionHeads w');
                               newId = discoverNewId previousHistoryId previousSession
                                         latestSession (history w')
                           in if \<not> truthy newId
                              then \<lparr>control = Return, console = msgs @ [CouldNotDetermine],
                                    filesAfter = files w'\<rparr>
                              else
                                (case appendEntry (files w') (cdxPath r)
                                        \<lparr>uuid = the newId, label = lbl\<rparr> of
                                   Inl e \<Rightarrow> \<lparr>control = Exit 1, console = msgs @ [Uncaught e],
                                             filesAfter = files w'\<rparr>
                                 | Inr fs' \<Rightarrow> \<lparr>control = Return, console = msgs,
                                              filesAfter = fs'\<rparr>)))
             | Some (SelResume e) \<Rightarrow>
                 (let c = codex [js ''resume'', uuid e] (workDir r) w
                  in case runCodex (win32 c) (result c) (psResult c) of
                       (msgs, ctl) \<Rightarrow>
                         \<lparr>control = ctl, console = msgs, filesAfter = files (after c)\<rparr>)))"

text \<open>
  \<^verbatim>\<open>runRemove\<close>. The answer to its prompts is the index of the chosen entry, or
  nothing.
\<close>

definition runRemove :: "filesys \<Rightarrow> path \<Rightarrow> nat option \<Rightarrow> outcome" where
  "runRemove fs startDir answer =
     (case findCdxFile fs startDir of
        None \<Rightarrow> \<lparr>control = Return, console = [NoCdxFileFound], filesAfter = fs\<rparr>
      | Some f \<Rightarrow>
         (let targetPath = filePath f
          in case loadEntries fs (Some targetPath) of
               Inl e \<Rightarrow> \<lparr>control = Exit 1, console = [Uncaught e], filesAfter = fs\<rparr>
             | Inr es \<Rightarrow>
                 if es = []
                 then \<lparr>control = Return, console = [NoSessionsToRemove], filesAfter = fs\<rparr>
                 else
                   (case answer of
                      None \<Rightarrow> \<lparr>control = Return, console = [], filesAfter = fs\<rparr>
                    | Some i \<Rightarrow>
                        if \<not> i < length es
                        then \<lparr>control = Return, console = [], filesAfter = fs\<rparr>
                        else
                          (let selectedUuid = uuid (es ! i);
                               remaining = filter (\<lambda>e. uuid e \<noteq> selectedUuid) es
                           in case writeEntries fs targetPath remaining of
                                Inl e \<Rightarrow> \<lparr>control = Exit 1, console = [Uncaught e],
                                          filesAfter = fs\<rparr>
                              | Inr fs' \<Rightarrow> \<lparr>control = Return, console = [],
                                           filesAfter = fs'\<rparr>))))"

section \<open>The properties as the specification words them\<close>

text \<open>A string is trimmed when it neither starts nor ends with white space.\<close>

definition trimmed :: "jsstr \<Rightarrow> bool" where
  "trimmed s \<longleftrightarrow> (s = [] \<or> (\<not> isWhiteSpace (hd s) \<and> \<not> isWhiteSpace (last s)))"

text \<open>
  The parser of the specification, line by line: trim the line, discard it when empty,
  split it at the first tab; a line with no tab, or with an id or a label that is empty
  after trimming, is dropped.
\<close>

definition validLine :: "jsstr \<Rightarrow> bool" where
  "validLine line \<longleftrightarrow>
     (let t = trim line
      in t \<noteq> [] \<and> TAB \<in> set t \<and>
         trim (takeWhile (\<lambda>c. c \<noteq> TAB) t) \<noteq> [] \<and>
         trim (tl (dropWhile (\<lambda>c. c \<noteq> TAB) t)) \<noteq> [])"

definition entryOfLine :: "jsstr \<Rightarrow> entry" where
  "entryOfLine line =
     (let t = trim line
      in \<lparr>uuid = trim (takeWhile (\<lambda>c. c \<noteq> TAB) t),
          label = trim (tl (dropWhile (\<lambda>c. c \<noteq> TAB) t))\<rparr>)"

text \<open>
  An entry that the codec gives back unchanged: id and label free of tabs and newlines,
  not empty, with no white space at either end, and without unpaired surrogate.
\<close>

definition wellFormed :: "entry \<Rightarrow> bool" where
  "wellFormed e \<longleftrightarrow>
     TAB \<notin> set (uuid e) \<and> LF \<notin> set (uuid e) \<and> TAB \<notin> set (label e) \<and> LF \<notin> set (label e) \<and>
     uuid e \<noteq> [] \<and> label e \<noteq> [] \<and> trimmed (uuid e) \<and> trimmed (label e) \<and>
     isWellFormed (uuid e) \<and> isWellFormed (label e)"

text \<open>
  \<open>firstNewHistoryIdSince\<close> of the specification: scan the history log from the end
  backward and return the first session id met that differs from the previous one.
\<close>

definition firstNewHistoryIdSince :: "jsstr \<Rightarrow> history_line list option \<Rightarrow> jsstr option" where
  "firstNewHistoryIdSince previousId hist =
     (case hist of
        None \<Rightarrow> None
      | Some lines \<Rightarrow>
          (case find (\<lambda>l. case l of Parsed sid \<Rightarrow> truthy sid \<and> sid \<noteq> Some previousId
                                  | Unparsable \<Rightarrow> False) (rev lines) of
             Some (Parsed sid) \<Rightarrow> sid
           | _ \<Rightarrow> None))"

section \<open>Example states\<close>

text \<open>
  A directory \<open>A\<close> whose registry holds one entry or two, below it \<open>A/B/C\<close>; lines
  of a registry, some of them malformed; a session store before and after a run, with
  the history log.
\<close>

definition exDir :: path where "exDir = [js ''A'']"

definition exDeep :: path where "exDeep = [js ''A'', js ''B'', js ''C'']"

definition exCdx :: path where "exCdx = [js ''A'', js ''.cdx'']"

definition exEntry1 :: entry where "exEntry1 = \<lparr>uuid = js ''u1'', label = js ''dev''\<rparr>"

definition exEntry2 :: entry where "exEntry2 = \<lparr>uuid = js ''u2'', label = js ''code review''\<rparr>"

definition exPadded :: entry where "exPadded = \<lparr>uuid = js ''a'', label = js '' b''\<rparr>"

definition exNoLabel :: entry where "exNoLabel = \<lparr>uuid = js ''a'', label = []\<rparr>"

definition exPaddedId :: entry where "exPaddedId = \<lparr>uuid = js ''a '', label = js ''b''\<rparr>"

definition exNoId :: entry where "exNoId = \<lparr>uuid = [], label = js ''b''\<rparr>"

definition exLone :: entry where "exLone = \<lparr>uuid = js ''a'', label = [0xD800]\<rparr>"

definition exPair :: entry where "exPair = \<lparr>uuid = js ''u3'', label = [0xD83D, 0xDE00]\<rparr>"

definition exEmptyDir :: filesys where
  "exEmptyDir = Map.empty(exDir \<mapsto> Dir)"

definition exFiles :: filesys where
  "exFiles = Map.empty(exCdx \<mapsto> File (js ''u1'' @ [TAB] @ js ''dev'' @ [LF]))"

definition exFiles2 :: filesys where
  "exFiles2 = Map.empty(exCdx \<mapsto>
     File (js ''u1'' @ [TAB] @ js ''dev'' @ [LF] @ js ''u2'' @ [TAB] @ js ''code review'' @ [LF]))"

definition exLines :: "jsstr list" where
  "exLines = [js ''u1'' @ [TAB] @ js ''dev'', js ''no tab here'', [TAB] @ js ''label only'',
              [], js ''id only'' @ [TAB], js '' u2 '' @ [TAB] @ js '' code review '' @ [CR]]"

definition exOld :: session_file where
  "exOld = \<lparr>path = [js ''sessions'', js ''old.jsonl''], mtimeMs = 1000\<rparr>"

definition exNew :: session_file where
  "exNew = \<lparr>path = [js ''sessions'', js ''new.jsonl''], mtimeMs = 2000\<rparr>"

definition exHeads :: "path \<Rightarrow> session_head" where
  "exHeads p = (if p = path exNew then Head (Some (js ''session_meta'')) (Some (js ''abc-123''))
                else if p = path exOld then Head (Some (js ''session_meta'')) (Some (js ''old-1''))
                else NoHead)"

definition exBefore :: world where
  "exBefore = \<lparr>files = exFiles, sessionFiles = [exOld], sessionHeads = exHeads,
               history = Some [Parsed (Some (js ''h1''))]\<rparr>"

definition exAfter :: world where
  "exAfter = \<lparr>files = exFiles, sessionFiles = [exNew, exOld], sessionHeads = exHeads,
              history = Some [Parsed (Some (js ''h1'')), Parsed (Some (js ''h2'')), Unparsable]\<rparr>"

definition exAfterSame :: world where
  "exAfterSame = \<lparr>files = exFiles, sessionFiles = [exOld], sessionHeads = exHeads,
              history = Some [Parsed (Some (js ''h1'')), Parsed (Some (js ''h2'')), Unparsable]\<rparr>"

definition exEmptyWorld :: world where
  "exEmptyWorld = \<lparr>files = exFiles, sessionFiles = [], sessionHeads = (\<lambda>p. NoHead), history = None\<rparr>"

definition exCodexFails :: "jsstr list \<Rightarrow> path \<Rightarrow> world \<Rightarrow> child" where
  "exCodexFails args cwd w =
     \<lparr>win32 = False, result = Finished (Some 2), psResult = Finished None, after = exAfter\<rparr>"

definition exCodexSilent :: "jsstr list \<Rightarrow> path \<Rightarrow> world \<Rightarrow> child" where
  "exCodexSilent args cwd w =
     \<lparr>win32 = False, result = Finished (Some 0), psResult = Finished None, after = w\<rparr>"

lemmas str_defs = js_def TAB_def LF_def CR_def SPACE_def CDX_FILENAME_def

section \<open>Strings: basic facts\<close>

lemma isWhiteSpace_TAB [simp]: "isWhiteSpace TAB"
  and isWhiteSpace_LF [simp]: "isWhiteSpace LF"
  and isWhiteSpace_CR [simp]: "isWhiteSpace CR"
  and isWhiteSpace_SPACE [simp]: "isWhiteSpace SPACE"
  by (simp_all add: isWhiteSpace_def TAB_def LF_def CR_def SPACE_def)

lemma isTabNlCr_isWhiteSpace: "isTabNlCr c \<Longrightarrow> isWhiteSpace c"
  by (auto simp: isTabNlCr_def)

lemma not_isTabNlCr_SPACE [simp]: "\<not> isTabNlCr SPACE"
  by (simp add: isTabNlCr_def SPACE_def TAB_def LF_def CR_def)

lemma trim_Nil [simp]: "trim [] = []"
  by (simp add: trim_def)

lemma set_trim_subset: "set (trim s) \<subseteq> set s"
proof -
  have "set (trim s) = set (dropWhile isWhiteSpace (rev (dropWhile isWhiteSpace s)))"
    by (simp add: trim_def)
  also have "\<dots> \<subseteq> set (rev (dropWhile isWhiteSpace s))"
    by (rule set_dropWhileD [THEN subsetI])
  also have "\<dots> \<subseteq> set s"
    using set_dropWhileD [of _ isWhiteSpace s] by auto
  finally show ?thesis .
qed

lemma trimmed_trim: "trimmed (trim s)"
proof -
  let ?a = "dropWhile isWhiteSpace s"
  let ?b = "dropWhile isWhiteSpace (rev ?a)"
  show ?thesis
  proof (cases "?b = []")
    case True
    then show ?thesis by (simp add: trimmed_def trim_def)
  next
    case False
    then have nb: "\<not> isWhiteSpace (hd ?b)" by (rule hd_dropWhile)
    have a_ne: "?a \<noteq> []"
    proof
      assume "?a = []"
      then have "?b = []" by (simp only: rev.simps dropWhile.simps)
      with False show False by (simp only:)
    qed
    then have na: "\<not> isWhiteSpace (hd ?a)" by (rule hd_dropWhile)
    have "last ?b = last (rev ?a)"
      using False by (metis last_appendR takeWhile_dropWhile_id)
    also have "\<dots> = hd ?a" using a_ne by (simp add: last_rev)
    finally have lb: "last ?b = hd ?a" .
    have "hd (rev ?b) = last ?b" using False by (simp add: hd_rev)
    moreover have "last (rev ?b) = hd ?b" using False by (simp add: last_rev)
    ultimately show ?thesis
      using nb na lb False by (simp add: trimmed_def trim_def)
  qed
qed

lemma trim_trimmed: "trimmed s \<Longrightarrow> trim s = s"
proof (cases "s = []")
  case True
  then show ?thesis by simp
next
  case False
  assume "trimmed s"
  with False have h: "\<not> isWhiteSpace (hd s)" and l: "\<not> isWhiteSpace (last s)"
    by (simp_all add: trimmed_def)
  from False h have "dropWhile isWhiteSpace s = s"
    by (cases s) simp_all
  moreover from False l have "dropWhile isWhiteSpace (rev s) = rev s"
    by (cases "rev s") (simp_all add: hd_rev [symmetric])
  ultimately show ?thesis by (simp add: trim_def)
qed

lemma trim_idem: "trim (trim s) = trim s"
  by (rule trim_trimmed) (rule trimmed_trim)

section \<open>Label sanitization: facts\<close>

lemma replaceRuns_clean: "c \<in> set (replaceRuns s) \<Longrightarrow> \<not> isTabNlCr c"
  by (induction s rule: replaceRuns.induct) (auto split: if_splits)

lemma replaceRuns_id: "\<forall>c \<in> set s. \<not> isTabNlCr c \<Longrightarrow> replaceRuns s = s"
  by (induction s) auto

lemma sanitizeLabel_clean: "c \<in> set (sanitizeLabel s) \<Longrightarrow> \<not> isTabNlCr c"
  using set_trim_subset [of "replaceRuns s"] replaceRuns_clean [of c s]
  by (auto simp: sanitizeLabel_def)

section \<open>Splitting and joining lines\<close>

lemma split_str_no_sep: "sep \<notin> set s \<Longrightarrow> split_str sep s = [s]"
proof -
  assume "sep \<notin> set s"
  then have "dropWhile (\<lambda>c. c \<noteq> sep) s = []" by auto
  then show ?thesis by (subst split_str.simps) (simp only: list.case)
qed

lemma split_str_cut:
  assumes "sep \<notin> set a"
  shows "split_str sep (a @ sep # b) = a # split_str sep b"
proof -
  from assms have d: "dropWhile (\<lambda>c. c \<noteq> sep) (a @ sep # b) = sep # b"
    by (auto simp: dropWhile_append3)
  from assms have t: "takeWhile (\<lambda>c. c \<noteq> sep) (a @ sep # b) = a"
    by (auto simp: takeWhile_tail)
  show ?thesis
    by (subst split_str.simps) (simp only: d t list.case)
qed

lemma split_join_then:
  assumes "ls \<noteq> []" and "\<forall>l \<in> set ls. sep \<notin> set l"
  shows "split_str sep (join_str [sep] ls @ sep # t) = ls @ split_str sep t"
  using assms
proof (induction "[sep]" ls rule: join_str.induct)
  case 1
  then show ?case by simp
next
  case (2 x)
  then show ?case by (simp add: split_str_cut)
next
  case (3 x y ys)
  then show ?case by (simp add: split_str_cut)
qed

lemma split_join:
  assumes "ls \<noteq> []" and "\<forall>l \<in> set ls. sep \<notin> set l"
  shows "split_str sep (join_str [sep] ls) = ls"
  using assms
proof (induction "[sep]" ls rule: join_str.induct)
  case 1
  then show ?case by simp
next
  case (2 x)
  then show ?case by (simp add: split_str_no_sep)
next
  case (3 x y ys)
  then show ?case by (simp add: split_str_cut)
qed

section \<open>Parsing lines\<close>

lemma take_first: "take (length (takeWhile P xs)) xs = takeWhile P xs"
  by (metis takeWhile_eq_take)

lemma drop_first: "drop (Suc (length (takeWhile P xs))) xs = tl (dropWhile P xs)"
  by (simp add: dropWhile_eq_drop drop_Suc tl_drop)

lemma parseLine_spec:
  "trim l \<noteq> [] \<Longrightarrow> parseLine (trim l) = (if validLine l then Some (entryOfLine l) else None)"
  by (simp add: parseLine_def indexOf_def validLine_def entryOfLine_def Let_def
      take_first drop_first)

lemma validLine_nonempty: "validLine l \<Longrightarrow> trim l \<noteq> []"
  by (simp add: validLine_def Let_def)

lemma parse_lines:
  "map the (filter (\<lambda>r. r \<noteq> None)
     (map parseLine (filter (\<lambda>line. line \<noteq> []) (map trim ls)))) =
   map entryOfLine (filter validLine ls)"
proof (induction ls)
  case Nil
  then show ?case by simp
next
  case (Cons l ls)
  show ?case
  proof (cases "trim l = []")
    case True
    then have "\<not> validLine l" by (auto dest: validLine_nonempty)
    with True Cons show ?thesis by simp
  next
    case False
    with Cons show ?thesis by (simp add: parseLine_spec)
  qed
qed

lemma parseContent_join:
  assumes "\<forall>l \<in> set ls. LF \<notin> set l"
  shows "parseContent (join_str [LF] ls) = map entryOfLine (filter validLine ls)"
proof (cases "ls = []")
  case True
  have "split_str LF [] = [[]]" by (simp add: split_str_no_sep)
  with True show ?thesis by (simp add: parseContent_def)
next
  case False
  with assms have "split_str LF (join_str [LF] ls) = ls" by (rule split_join [rotated])
  then show ?thesis by (simp only: parseContent_def parse_lines)
qed

lemma trimmed_hd: "trimmed s \<Longrightarrow> s \<noteq> [] \<Longrightarrow> \<not> isWhiteSpace (hd s)"
  and trimmed_last: "trimmed s \<Longrightarrow> s \<noteq> [] \<Longrightarrow> \<not> isWhiteSpace (last s)"
  by (simp_all add: trimmed_def)

lemma trim_eq_Nil: "trim s = [] \<longleftrightarrow> (\<forall>c \<in> set s. isWhiteSpace c)"
proof -
  let ?a = "dropWhile isWhiteSpace s"
  have "trim s = [] \<longleftrightarrow> (\<forall>c \<in> set ?a. isWhiteSpace c)"
    by (simp add: trim_def)
  also have "\<dots> \<longleftrightarrow> ?a = []"
  proof
    assume all: "\<forall>c \<in> set ?a. isWhiteSpace c"
    show "?a = []"
    proof (rule ccontr)
      assume ne: "?a \<noteq> []"
      then have "\<not> isWhiteSpace (hd ?a)" by (rule hd_dropWhile)
      moreover from ne have "hd ?a \<in> set ?a" by (rule hd_in_set)
      ultimately show False using all by blast
    qed
  next
    assume "?a = []"
    then show "\<forall>c \<in> set ?a. isWhiteSpace c" by (simp only: list.set ball_empty)
  qed
  also have "\<dots> \<longleftrightarrow> (\<forall>c \<in> set s. isWhiteSpace c)"
    by simp
  finally show ?thesis .
qed

text \<open>After the line is trimmed, an empty id or label cannot occur: only the tab counts.\<close>

lemma validLine_iff_tab: "validLine l \<longleftrightarrow> TAB \<in> set (trim l)"
proof
  assume "validLine l"
  then show "TAB \<in> set (trim l)" by (simp add: validLine_def Let_def)
next
  let ?t = "trim l"
  assume tab: "TAB \<in> set ?t"
  then have ne: "?t \<noteq> []" by auto
  have tr: "trimmed ?t" by (rule trimmed_trim)
  let ?a = "takeWhile (\<lambda>c. c \<noteq> TAB) ?t"
  let ?b = "dropWhile (\<lambda>c. c \<noteq> TAB) ?t"
  from tab have b: "?b \<noteq> []" by auto
  then have hb: "hd ?b = TAB" using hd_dropWhile [of "\<lambda>c. c \<noteq> TAB" ?t] by simp
  from tr ne have h: "\<not> isWhiteSpace (hd ?t)" and la: "\<not> isWhiteSpace (last ?t)"
    by (rule trimmed_hd, rule trimmed_last)
  have a_ne: "?a \<noteq> []"
  proof
    assume "?a = []"
    then have "?b = ?t" by (metis append_Nil takeWhile_dropWhile_id)
    with hb h show False by simp
  qed
  then have "hd ?a = hd ?t" by (metis hd_append2 takeWhile_dropWhile_id)
  with h hd_in_set [OF a_ne] have "hd ?a \<in> set ?a \<and> \<not> isWhiteSpace (hd ?a)" by simp
  then have 1: "trim ?a \<noteq> []" by (auto simp: trim_eq_Nil)
  have lt: "last ?t = last ?b" using b by (metis last_appendR takeWhile_dropWhile_id)
  from b hb obtain r where r: "?b = TAB # r" by (cases ?b) simp_all
  have r_ne: "r \<noteq> []"
  proof
    assume "r = []"
    with r lt have "last ?t = TAB" by simp
    with la show False by simp
  qed
  with r lt have "last r = last ?t" by simp
  with la last_in_set [OF r_ne] have "last r \<in> set r \<and> \<not> isWhiteSpace (last r)" by simp
  then have "trim r \<noteq> []" by (auto simp: trim_eq_Nil)
  with r have 2: "trim (tl ?b) \<noteq> []" by (metis list.sel(3))
  from ne tab 1 2 show "validLine l" by (simp add: validLine_def Let_def)
qed

lemma entryLine_parse:
  assumes "wellFormed e"
  shows "trim (entryLine e) = entryLine e" and "entryLine e \<noteq> []"
    and "parseLine (entryLine e) = Some e" and "LF \<notin> set (entryLine e)"
proof -
  from assms have u: "TAB \<notin> set (uuid e)" "uuid e \<noteq> []" "trimmed (uuid e)"
    and l: "label e \<noteq> []" "trimmed (label e)"
    and nl: "LF \<notin> set (uuid e)" "LF \<notin> set (label e)"
    by (simp_all add: wellFormed_def)
  have "trimmed (entryLine e)"
    using u l by (simp add: trimmed_def entryLine_def)
  then show "trim (entryLine e) = entryLine e" by (rule trim_trimmed)
  show "entryLine e \<noteq> []" by (simp add: entryLine_def)
  have tw: "takeWhile (\<lambda>x. x \<noteq> TAB) (uuid e @ TAB # label e) = uuid e"
    using u(1) by (auto simp: takeWhile_tail)
  show "parseLine (entryLine e) = Some e"
    using u l by (simp add: parseLine_def indexOf_def entryLine_def tw trim_trimmed)
  show "LF \<notin> set (entryLine e)"
    using nl by (simp add: entryLine_def TAB_def LF_def)
qed

lemma parse_entry_lines:
  assumes "\<forall>e \<in> set es. wellFormed e"
  shows "map the (filter (\<lambda>r. r \<noteq> None)
     (map parseLine (filter (\<lambda>line. line \<noteq> []) (map trim (map entryLine es))))) = es"
  using assms by (induction es) (simp_all add: entryLine_parse)

lemma parse_serialize:
  assumes "\<forall>e \<in> set es. wellFormed e"
  shows "parseContent (serializeContent es) = es"
proof (cases "es = []")
  case True
  have "split_str LF [LF] = [[], []]"
    using split_str_cut [of LF "[]" "[]"] by (simp add: split_str_no_sep)
  with True show ?thesis by (simp add: parseContent_def serializeContent_def)
next
  case False
  have e: "split_str LF [] = [[]]" by (simp add: split_str_no_sep)
  from False assms
  have "split_str LF (join_str [LF] (map entryLine es) @ LF # []) = map entryLine es @ split_str LF []"
    by (intro split_join_then) (auto simp: entryLine_parse)
  then have "split_str LF (serializeContent es) = map entryLine es @ [[]]"
    by (simp add: serializeContent_def e)
  then show ?thesis
    using parse_entry_lines [OF assms] by (simp add: parseContent_def)
qed

section \<open>Well-formed strings\<close>

lemma isWellFormed_Cons: "\<not> isSurrogate c \<Longrightarrow> isWellFormed (c # s) = isWellFormed s"
  by (cases s) (simp_all add: isSurrogate_def)

lemma isWellFormed_cut:
  "\<not> isSurrogate c \<Longrightarrow> isWellFormed (a @ c # b) \<longleftrightarrow> isWellFormed a \<and> isWellFormed b"
proof (induction a rule: isWellFormed.induct)
  case 1
  then show ?case by (simp add: isWellFormed_Cons)
next
  case (2 x)
  then show ?case by (auto simp: isWellFormed_Cons isSurrogate_def)
next
  case (3 x y zs)
  then show ?case by auto
qed

lemma isWellFormed_append:
  "isWellFormed a \<Longrightarrow> isWellFormed b \<Longrightarrow> isWellFormed (a @ b)"
proof (induction a rule: isWellFormed.induct)
  case 1
  then show ?case by simp
next
  case (2 x)
  then show ?case by (cases b) simp_all
next
  case (3 x y zs)
  then show ?case by (auto split: if_splits)
qed

lemma toWellFormed_id: "isWellFormed s \<Longrightarrow> toWellFormed s = s"
  by (induction s rule: isWellFormed.induct) (auto split: if_splits)

lemma not_isSurrogate_TAB [simp]: "\<not> isSurrogate TAB"
  and not_isSurrogate_LF [simp]: "\<not> isSurrogate LF"
  by (simp_all add: isSurrogate_def isHighSurrogate_def isLowSurrogate_def TAB_def LF_def)

lemma isWhiteSpace_not_surrogate: "isWhiteSpace c \<Longrightarrow> \<not> isSurrogate c"
  by (auto simp: isWhiteSpace_def isSurrogate_def isHighSurrogate_def isLowSurrogate_def
        word_le_nat_alt)

lemma isWellFormed_dropWhile:
  "isWellFormed s \<Longrightarrow> isWellFormed (dropWhile isWhiteSpace s)"
  by (induction s) (auto simp: isWellFormed_Cons isWhiteSpace_not_surrogate)

lemma isWellFormed_strip_end:
  "\<forall>c \<in> set w. \<not> isSurrogate c \<Longrightarrow> isWellFormed (a @ w) \<Longrightarrow> isWellFormed a"
  by (cases w) (auto simp: isWellFormed_cut)

lemma isWellFormed_trim: "isWellFormed s \<Longrightarrow> isWellFormed (trim s)"
proof -
  assume wf: "isWellFormed s"
  let ?t = "dropWhile isWhiteSpace s"
  let ?w = "rev (takeWhile isWhiteSpace (rev ?t))"
  have "trim s @ ?w = rev (takeWhile isWhiteSpace (rev ?t) @ dropWhile isWhiteSpace (rev ?t))"
    by (simp only: trim_def rev_append)
  also have "\<dots> = rev (rev ?t)"
    by (simp only: takeWhile_dropWhile_id)
  also have "\<dots> = ?t" by simp
  finally have t: "?t = trim s @ ?w" by (rule sym)
  have "\<forall>c \<in> set ?w. \<not> isSurrogate c"
    by (auto dest: set_takeWhileD isWhiteSpace_not_surrogate)
  moreover from wf have "isWellFormed ?t" by (rule isWellFormed_dropWhile)
  with t have "isWellFormed (trim s @ ?w)" by simp
  ultimately show ?thesis by (rule isWellFormed_strip_end)
qed

lemma isWellFormed_pieces:
  assumes "isWellFormed s" and "\<not> isSurrogate sep" and "sep \<in> set s"
  shows "isWellFormed (takeWhile (\<lambda>c. c \<noteq> sep) s)"
    and "isWellFormed (tl (dropWhile (\<lambda>c. c \<noteq> sep) s))"
proof -
  let ?a = "takeWhile (\<lambda>c. c \<noteq> sep) s"
  let ?b = "dropWhile (\<lambda>c. c \<noteq> sep) s"
  from assms(3) have "?b \<noteq> []" by auto
  moreover from this have "hd ?b = sep" using hd_dropWhile [of "\<lambda>c. c \<noteq> sep" s] by simp
  ultimately have b: "?b = sep # tl ?b" by (cases ?b) simp_all
  have "s = ?a @ ?b" by simp
  with b have "s = ?a @ sep # tl ?b" by simp
  with assms(1) have "isWellFormed (?a @ sep # tl ?b)" by simp
  with assms(2) show "isWellFormed ?a" and "isWellFormed (tl ?b)"
    by (simp_all add: isWellFormed_cut)
qed

lemma isWellFormed_split:
  "isWellFormed s \<Longrightarrow> \<not> isSurrogate sep \<Longrightarrow> l \<in> set (split_str sep s) \<Longrightarrow> isWellFormed l"
proof (induction sep s rule: split_str.induct)
  case (1 sep s)
  show ?case
  proof (cases "sep \<in> set s")
    case False
    then have "split_str sep s = [s]" by (rule split_str_no_sep)
    with 1 show ?thesis by simp
  next
    case True
    let ?a = "takeWhile (\<lambda>c. c \<noteq> sep) s"
    let ?b = "dropWhile (\<lambda>c. c \<noteq> sep) s"
    from True have "?b \<noteq> []" by auto
    moreover from this have "hd ?b = sep" using hd_dropWhile [of "\<lambda>c. c \<noteq> sep" s] by simp
    ultimately have b: "?b = sep # tl ?b" by (cases ?b) simp_all
    have sp: "split_str sep s = ?a # split_str sep (tl ?b)"
      by (subst split_str.simps, subst b) (simp only: list.case)
    from "1.prems"(1,2) True have wa: "isWellFormed ?a" and wb: "isWellFormed (tl ?b)"
      by (rule isWellFormed_pieces)+
    from "1.prems"(3) sp have "l = ?a \<or> l \<in> set (split_str sep (tl ?b))" by simp
    then show ?thesis
    proof
      assume "l = ?a"
      with wa show ?thesis by simp
    next
      assume "l \<in> set (split_str sep (tl ?b))"
      with "1.IH" [OF b wb "1.prems"(2)] show ?thesis .
    qed
  qed
qed

lemma parseContent_lines:
  "parseContent content = map entryOfLine (filter validLine (split_str LF content))"
  by (simp only: parseContent_def parse_lines)

lemma entryOfLine_isWellFormed:
  assumes "isWellFormed l" and "validLine l"
  shows "isWellFormed (uuid (entryOfLine l)) \<and> isWellFormed (label (entryOfLine l))"
proof -
  from assms(1) have t: "isWellFormed (trim l)" by (rule isWellFormed_trim)
  from assms(2) have tab: "TAB \<in> set (trim l)" by (simp add: validLine_def Let_def)
  from t not_isSurrogate_TAB tab
  have "isWellFormed (takeWhile (\<lambda>c. c \<noteq> TAB) (trim l))"
    and "isWellFormed (tl (dropWhile (\<lambda>c. c \<noteq> TAB) (trim l)))"
    by (rule isWellFormed_pieces)+
  then show ?thesis
    by (simp add: entryOfLine_def Let_def isWellFormed_trim)
qed

lemma parseContent_isWellFormed:
  assumes "isWellFormed content" and "e \<in> set (parseContent content)"
  shows "isWellFormed (uuid e) \<and> isWellFormed (label e)"
proof -
  from assms(2) obtain l where l: "l \<in> set (split_str LF content)" "validLine l" "e = entryOfLine l"
    by (auto simp: parseContent_lines)
  from assms(1) not_isSurrogate_LF l(1) have "isWellFormed l" by (rule isWellFormed_split)
  with l(2,3) show ?thesis by (simp add: entryOfLine_isWellFormed)
qed

lemma isWellFormed_join:
  "\<forall>l \<in> set ls. isWellFormed l \<Longrightarrow> isWellFormed (join_str [LF] ls)"
  by (induction "[LF]" ls rule: join_str.induct) (simp_all add: isWellFormed_cut)

lemma isWellFormed_serializeContent:
  assumes "\<forall>e \<in> set es. isWellFormed (uuid e) \<and> isWellFormed (label e)"
  shows "isWellFormed (serializeContent es)"
proof -
  from assms have "\<forall>l \<in> set (map entryLine es). isWellFormed l"
    by (auto simp: entryLine_def isWellFormed_cut)
  then have "isWellFormed (join_str [LF] (map entryLine es))" by (rule isWellFormed_join)
  then have "isWellFormed (join_str [LF] (map entryLine es) @ LF # [])"
    by (simp add: isWellFormed_cut)
  then show ?thesis by (simp add: serializeContent_def)
qed

section \<open>Resolver and file operations: facts\<close>

lemma findCdxFile_root:
  "findCdxFile fs [] =
     (if existsSync fs (join_path [] CDX_FILENAME)
      then Some \<lparr>dir = [], filePath = join_path [] CDX_FILENAME\<rparr> else None)"
  by (subst findCdxFile.simps) (simp add: dirname_def)

lemma findCdxFile_step:
  "findCdxFile fs (xs @ [x]) =
     (if existsSync fs (join_path (xs @ [x]) CDX_FILENAME)
      then Some \<lparr>dir = xs @ [x], filePath = join_path (xs @ [x]) CDX_FILENAME\<rparr>
      else findCdxFile fs xs)"
  by (subst findCdxFile.simps) (simp add: dirname_def)

lemma writeEntries_result:
  assumes "fs p = Some (File c)"
  shows "writeEntries fs p es =
           Inr (if es = [] then fs(p := None)
                else fs(p \<mapsto> File (toWellFormed (serializeContent es))))"
  using assms
  by (simp add: writeEntries_def existsSync_def writeFileSync_def unlinkSync_def)

lemma writeEntries_create:
  assumes "fs p = None" and "createError fs p = None"
  shows "writeEntries fs p es =
           Inr (if es = [] then fs else fs(p \<mapsto> File (toWellFormed (serializeContent es))))"
  using assms
  by (simp add: writeEntries_def existsSync_def writeFileSync_def)

text \<open>In the mode \<^verbatim>\<open>here\<close> the walk is skipped and nothing is read.\<close>

lemma resolveDefault_here:
  "resolveDefault fs startDir True =
     \<lparr>foundCdx = None, workDir = startDir, cdxPath = join_path startDir CDX_FILENAME,
      entries = Inr []\<rparr>"
  by (simp add: resolveDefault_def loadEntries_def)

section \<open>Session discovery: facts\<close>

lemma uuidShaped_length: "uuidShaped s \<Longrightarrow> length s = 36"
  unfolding uuidShaped_def by (rule conjunct1)

lemma extractIdFromFilename_shaped: "extractIdFromFilename p = Some i \<Longrightarrow> uuidShaped i"
  by (simp add: extractIdFromFilename_def Let_def split: if_splits)

lemma extractIdFromFilename_nonempty: "extractIdFromFilename p = Some i \<Longrightarrow> i \<noteq> []"
  using uuidShaped_length [OF extractIdFromFilename_shaped, of p i] by auto

lemma readSessionIdFromFile_nonempty: "readSessionIdFromFile heads p = Some i \<Longrightarrow> i \<noteq> []"
  by (auto simp: readSessionIdFromFile_def dest: extractIdFromFilename_nonempty
           split: session_head.splits option.splits if_splits)

lemma getLatestSessionSnapshot_truthy:
  assumes "getLatestSessionSnapshot fls heads = Some s"
  shows "truthy (snap_id s) \<longleftrightarrow> snap_id s \<noteq> None"
proof -
  from assms have "snap_id s = readSessionIdFromFile heads (path s)"
    by (auto simp: getLatestSessionSnapshot_def Let_def split: if_splits)
  then show ?thesis
    using readSessionIdFromFile_nonempty [of heads "path s"]
    by (auto simp: truthy_def)
qed

lemma lastIdFrom_nonempty: "lastIdFrom lines n = Some h \<Longrightarrow> h \<noteq> []"
  by (induction n) (auto simp: truthy_def split: history_line.splits if_splits)

lemma getLastHistorySessionId_nonempty: "getLastHistorySessionId hist = Some h \<Longrightarrow> h \<noteq> []"
  by (auto simp: getLastHistorySessionId_def dest: lastIdFrom_nonempty split: option.splits)

lemma newestIdFrom_find:
  "n \<le> length lines \<Longrightarrow>
   newestIdFrom previousId lines n =
     (case find (\<lambda>l. case l of Parsed sid \<Rightarrow> truthy sid \<and> sid \<noteq> Some previousId
                             | Unparsable \<Rightarrow> False) (rev (take n lines)) of
        Some (Parsed sid) \<Rightarrow> sid
      | _ \<Rightarrow> None)"
proof (induction n)
  case 0
  then show ?case by simp
next
  case (Suc n)
  then have "take (Suc n) lines = take n lines @ [lines ! n]"
    by (simp add: take_Suc_conv_app_nth)
  with Suc show ?case
    by (cases "lines ! n") simp_all
qed

lemma getNewest_is_first_new:
  "getNewestHistorySessionIdSince previousId hist = firstNewHistoryIdSince previousId hist"
  by (cases hist)
     (simp_all add: getNewestHistorySessionIdSince_def firstNewHistoryIdSince_def newestIdFrom_find)

lemma discoverNewId_nothing: "discoverNewId None None None historyAfter = None"
  by (simp add: discoverNewId_def)

text \<open>An identifier that discovery returns is one it has read: it makes none up.\<close>

lemma newestIdFrom_source:
  "n \<le> length lines \<Longrightarrow> newestIdFrom previousId lines n = Some i \<Longrightarrow> Parsed (Some i) \<in> set lines"
proof (induction n)
  case 0
  then show ?case by simp
next
  case (Suc n)
  then have "lines ! n \<in> set lines" by simp
  with Suc show ?case
    by (cases "lines ! n") (auto split: if_splits)
qed

lemma discoverNewId_source:
  assumes "discoverNewId previousHistoryId previous latest historyAfter = Some i"
  shows "(\<exists>l. latest = Some l \<and> snap_id l = Some i) \<or>
         (\<exists>lines. historyAfter = Some lines \<and> Parsed (Some i) \<in> set lines)"
  using assms
  by (auto simp: discoverNewId_def getNewestHistorySessionIdSince_def
           dest: newestIdFrom_source [rotated]
           split: option.splits if_splits)

section \<open>Running the external tool: facts\<close>

lemma statusOr1_nonzero: "st \<noteq> Some 0 \<Longrightarrow> statusOr1 st \<noteq> 0"
  by (cases st) (simp_all add: statusOr1_def)

lemma runCodex_exit_nonzero: "runCodex w32 res ps = (msgs, Exit code) \<Longrightarrow> code \<noteq> 0"
  by (auto simp: runCodex_def statusOr1_nonzero split: spawn_result.splits if_splits)

lemma runCodex_child_failed:
  "st \<noteq> Some 0 \<Longrightarrow> runCodex w32 (Finished st) ps = ([], Exit (statusOr1 st))"
  by (simp add: runCodex_def)

text \<open>
  The new-session flow, when the tool returns and discovery finds an identifier: the entry
  with that identifier and the sanitized label is appended to the registry.
\<close>

lemma runDefault_new_success:
  assumes "entries (resolveDefault (files w) startDir (here opts)) = Inr es"
    and "(if forceNew opts then Some SelNew else selectSession es answer) = Some SelNew"
    and "truthy (Some l)"
    and "c = codex [] (workDir (resolveDefault (files w) startDir (here opts))) w"
    and "runCodex (win32 c) (result c) (psResult c) = (msgs, Return)"
    and "discoverNewId (getLastHistorySessionId (history w))
           (getLatestSessionSnapshot (sessionFiles w) (sessionHeads w))
           (getLatestSessionSnapshot (sessionFiles (after c)) (sessionHeads (after c)))
           (history (after c)) = Some i"
    and "truthy (Some i)"
  shows "runDefault codex w startDir opts answer (Some l) =
           (case appendEntry (files (after c))
                   (cdxPath (resolveDefault (files w) startDir (here opts)))
                   \<lparr>uuid = i, label = sanitizeLabel l\<rparr> of
              Inl e \<Rightarrow> \<lparr>control = Exit 1, console = msgs @ [Uncaught e],
                        filesAfter = files (after c)\<rparr>
            | Inr fs' \<Rightarrow> \<lparr>control = Return, console = msgs, filesAfter = fs'\<rparr>)"
  using assms(1,2,3,5,6,7)
  unfolding runDefault_def
  by (simp add: Let_def assms(4) [symmetric])

section \<open>Reconciliation\<close>

text \<open>
  Claim C1. When the snapshot taken after the run exists and has an id, and either there
  was no snapshot before the run, or its path differs from the earlier one, or its
  modification time is strictly greater, the new session identifier is the id of that
  snapshot, whatever the earlier history id and the history log are.
\<close>

theorem reconcile_primary:
  assumes "getLatestSessionSnapshot (sessionFiles w') (sessionHeads w') = Some latest"
    and "snap_id latest = Some i"
    and "previous = None \<or>
         (\<exists>p. previous = Some p \<and> (path latest \<noteq> path p \<or> mtimeMs p < mtimeMs latest))"
  shows "discoverNewId previousHistoryId previous (Some latest) historyAfter = Some i"
proof -
  have "truthy (snap_id latest) \<longleftrightarrow> snap_id latest \<noteq> None"
    using assms(1) by (rule getLatestSessionSnapshot_truthy)
  with assms(2) have "truthy (Some i)" by simp
  with assms(2,3) show ?thesis
    by (auto simp: discoverNewId_def)
qed

theorem reconcile_primary_witness:
  "discoverNewId (Some (js ''h1''))
     (getLatestSessionSnapshot (sessionFiles exBefore) (sessionHeads exBefore))
     (getLatestSessionSnapshot (sessionFiles exAfter) (sessionHeads exAfter))
     (history exAfter) = Some (js ''abc-123'')"
proof -
  let ?latest = "\<lparr>path = path exNew, mtimeMs = 2000, snap_id = Some (js ''abc-123'')\<rparr>"
  let ?prev = "\<lparr>path = path exOld, mtimeMs = 1000, snap_id = Some (js ''old-1'')\<rparr>"
  have a: "getLatestSessionSnapshot (sessionFiles exAfter) (sessionHeads exAfter) = Some ?latest"
    by (simp add: exBefore_def exAfter_def exOld_def exNew_def exHeads_def getLatestSessionSnapshot_def readSessionIdFromFile_def js_def)
  have b: "getLatestSessionSnapshot (sessionFiles exBefore) (sessionHeads exBefore) = Some ?prev"
    by (simp add: exBefore_def exAfter_def exOld_def exNew_def exHeads_def getLatestSessionSnapshot_def readSessionIdFromFile_def js_def)
  have i: "snap_id ?latest = Some (js ''abc-123'')" by simp
  have c: "Some ?prev = None \<or>
       (\<exists>p. Some ?prev = Some p \<and> (path ?latest \<noteq> path p \<or> mtimeMs p < mtimeMs ?latest))"
    by (simp add: exBefore_def exAfter_def exOld_def exNew_def exHeads_def js_def)
  from reconcile_primary [OF a i c] show ?thesis
    by (simp only: a b)
qed

text \<open>
  Claim C2. When the snapshot signal is inconclusive (no snapshot after the run, or one
  without id, or one with the path of the earlier snapshot and a modification time that is
  not strictly greater, equal times included) and the history id read before the run is
  not null, the new identifier is what the backward scan of the history log returns: the
  session id of the last record whose id differs from the earlier one.
\<close>

theorem reconcile_fallback:
  assumes "getLastHistorySessionId historyBefore = Some h"
    and "latest = None \<or>
         (\<exists>l. latest = Some l \<and>
            (snap_id l = None \<or>
             (\<exists>p. previous = Some p \<and> path l = path p \<and> mtimeMs l \<le> mtimeMs p)))"
  shows "discoverNewId (Some h) previous latest historyAfter = firstNewHistoryIdSince h historyAfter"
proof -
  from assms(1) have "h \<noteq> []" by (rule getLastHistorySessionId_nonempty)
  with assms(2) show ?thesis
    by (auto simp: discoverNewId_def truthy_def getNewest_is_first_new)
qed

theorem reconcile_fallback_witness:
  "discoverNewId (getLastHistorySessionId (history exBefore))
     (getLatestSessionSnapshot (sessionFiles exBefore) (sessionHeads exBefore))
     (getLatestSessionSnapshot (sessionFiles exAfterSame) (sessionHeads exAfterSame))
     (history exAfterSame) = Some (js ''h2'')"
proof -
  let ?snap = "\<lparr>path = path exOld, mtimeMs = 1000, snap_id = Some (js ''old-1'')\<rparr>"
  have a: "getLatestSessionSnapshot (sessionFiles exAfterSame) (sessionHeads exAfterSame) = Some ?snap"
    by (simp add: exBefore_def exAfterSame_def exOld_def exNew_def exHeads_def getLatestSessionSnapshot_def readSessionIdFromFile_def js_def)
  have b: "getLatestSessionSnapshot (sessionFiles exBefore) (sessionHeads exBefore) = Some ?snap"
    by (simp add: exBefore_def exAfterSame_def exOld_def exNew_def exHeads_def getLatestSessionSnapshot_def readSessionIdFromFile_def js_def)
  have h: "getLastHistorySessionId (history exBefore) = Some (js ''h1'')"
    by (simp add: exBefore_def exAfterSame_def exOld_def exNew_def exHeads_def getLastHistorySessionId_def truthy_def js_def)
  have c: "Some ?snap = None \<or>
       (\<exists>l. Some ?snap = Some l \<and>
          (snap_id l = None \<or>
           (\<exists>p. Some ?snap = Some p \<and> path l = path p \<and> mtimeMs l \<le> mtimeMs p)))"
    by simp
  have f: "firstNewHistoryIdSince (js ''h1'') (history exAfterSame) = Some (js ''h2'')"
    by (simp add: exBefore_def exAfterSame_def exOld_def exNew_def exHeads_def firstNewHistoryIdSince_def truthy_def js_def)
  from reconcile_fallback [OF h c, of "history exAfterSame"] show ?thesis
    by (simp only: a b h f)
qed

text \<open>
  Claim C3. In the new-session flow, when the child process exits with a status other than
  zero (or the tool cannot be run at all), or when reconciliation yields no identifier,
  the flow reports the failure, by a non-zero exit code or by the message that the
  identifier could not be determined, and leaves the registry as the child left it: no
  entry is appended. With no snapshot before, none after and no earlier history id there
  is no identifier.
\<close>

theorem new_session_failure_keeps_registry:
  assumes es: "entries (resolveDefault (files w) startDir (here opts)) = Inr es"
    and sel: "(if forceNew opts then Some SelNew else selectSession es answer) = Some SelNew"
    and lab: "truthy labelInput"
    and c: "c = codex [] (workDir (resolveDefault (files w) startDir (here opts))) w"
    and fail: "(\<exists>st. result c = Finished st \<and> st \<noteq> Some 0) \<or>
               snd (runCodex (win32 c) (result c) (psResult c)) \<noteq> Return \<or>
               discoverNewId (getLastHistorySessionId (history w))
                 (getLatestSessionSnapshot (sessionFiles w) (sessionHeads w))
                 (getLatestSessionSnapshot (sessionFiles (after c)) (sessionHeads (after c)))
                 (history (after c)) = None"
    and out: "out = runDefault codex w startDir opts answer labelInput"
  shows "filesAfter out = files (after c) \<and>
         ((\<exists>code. control out = Exit code \<and> code \<noteq> 0) \<or>
          (control out = Return \<and> CouldNotDetermine \<in> set (console out))) \<and>
         discoverNewId None None None (history (after c)) = None"
proof -
  obtain msgs ctl where rc: "runCodex (win32 c) (result c) (psResult c) = (msgs, ctl)"
    by (cases "runCodex (win32 c) (result c) (psResult c)")
  show ?thesis
  proof (cases ctl)
    case (Exit code)
    with rc have "code \<noteq> 0" by (auto dest: runCodex_exit_nonzero)
    with Exit rc es sel lab show ?thesis
      unfolding out runDefault_def
      by (simp add: Let_def c [symmetric] discoverNewId_nothing)
  next
    case Return
    with rc fail have "discoverNewId (getLastHistorySessionId (history w))
                 (getLatestSessionSnapshot (sessionFiles w) (sessionHeads w))
                 (getLatestSessionSnapshot (sessionFiles (after c)) (sessionHeads (after c)))
                 (history (after c)) = None"
      by (auto simp: runCodex_child_failed)
    with Return rc es sel lab show ?thesis
      unfolding out runDefault_def
      by (simp add: Let_def c [symmetric] discoverNewId_nothing truthy_def)
  qed
qed

theorem new_session_failure_keeps_registry_witness:
  "filesAfter (runDefault exCodexFails exBefore exDir \<lparr>here = False, forceNew = True\<rparr>
                 PickNothing (Some (js ''dev''))) = files exAfter \<and>
   control (runDefault exCodexFails exBefore exDir \<lparr>here = False, forceNew = True\<rparr>
                 PickNothing (Some (js ''dev''))) = Exit 2 \<and>
   filesAfter (runDefault exCodexSilent exEmptyWorld exDir \<lparr>here = False, forceNew = True\<rparr>
                 PickNothing (Some (js ''dev''))) = files exEmptyWorld \<and>
   console (runDefault exCodexSilent exEmptyWorld exDir \<lparr>here = False, forceNew = True\<rparr>
                 PickNothing (Some (js ''dev''))) = [CouldNotDetermine]"
proof -
  let ?opts = "\<lparr>here = False, forceNew = True\<rparr>"
  have f: "findCdxFile exFiles exDir = Some \<lparr>dir = exDir, filePath = exCdx\<rparr>"
    by (simp add: exFiles_def exDir_def exCdx_def findCdxFile.simps join_path_def existsSync_def str_defs)
  have es1: "entries (resolveDefault (files exBefore) exDir (here ?opts)) = Inr [exEntry1]"
    unfolding resolveDefault_def
    by (simp add: exBefore_def f) code_simp
  have es2: "entries (resolveDefault (files exEmptyWorld) exDir (here ?opts)) = Inr [exEntry1]"
    unfolding resolveDefault_def
    by (simp add: exEmptyWorld_def f) code_simp
  have sel: "(if forceNew ?opts then Some SelNew else selectSession [exEntry1] PickNothing) = Some SelNew"
    by simp
  have lab: "truthy (Some (js ''dev''))" by (simp add: truthy_def js_def)
  let ?c1 = "exCodexFails [] (workDir (resolveDefault (files exBefore) exDir (here ?opts))) exBefore"
  let ?c2 = "exCodexSilent [] (workDir (resolveDefault (files exEmptyWorld) exDir (here ?opts))) exEmptyWorld"
  have fail1: "(\<exists>st. result ?c1 = Finished st \<and> st \<noteq> Some 0) \<or>
               snd (runCodex (win32 ?c1) (result ?c1) (psResult ?c1)) \<noteq> Return \<or>
               discoverNewId (getLastHistorySessionId (history exBefore))
                 (getLatestSessionSnapshot (sessionFiles exBefore) (sessionHeads exBefore))
                 (getLatestSessionSnapshot (sessionFiles (after ?c1)) (sessionHeads (after ?c1)))
                 (history (after ?c1)) = None"
    by (simp add: exCodexFails_def)
  have a2: "after ?c2 = exEmptyWorld" by (simp add: exCodexSilent_def)
  have fail2: "(\<exists>st. result ?c2 = Finished st \<and> st \<noteq> Some 0) \<or>
               snd (runCodex (win32 ?c2) (result ?c2) (psResult ?c2)) \<noteq> Return \<or>
               discoverNewId (getLastHistorySessionId (history exEmptyWorld))
                 (getLatestSessionSnapshot (sessionFiles exEmptyWorld) (sessionHeads exEmptyWorld))
                 (getLatestSessionSnapshot (sessionFiles (after ?c2)) (sessionHeads (after ?c2)))
                 (history (after ?c2)) = None"
    unfolding a2
    by (simp add: exEmptyWorld_def getLastHistorySessionId_def getLatestSessionSnapshot_def
        discoverNewId_def)
  note t1 = new_session_failure_keeps_registry
    [where codex = exCodexFails and w = exBefore and c = ?c1, OF es1 sel lab refl fail1 refl]
  note t2 = new_session_failure_keeps_registry
    [where codex = exCodexSilent and w = exEmptyWorld and c = ?c2, OF es2 sel lab refl fail2 refl]
  have x1: "control (runDefault exCodexFails exBefore exDir ?opts PickNothing (Some (js ''dev''))) = Exit 2"
    using es1 lab by (simp add: runDefault_def Let_def exCodexFails_def runCodex_def statusOr1_def)
  have x2: "console (runDefault exCodexSilent exEmptyWorld exDir ?opts PickNothing (Some (js ''dev''))) = [CouldNotDetermine]"
    using es2 lab
    by (simp add: runDefault_def Let_def exCodexSilent_def runCodex_def exEmptyWorld_def
        getLastHistorySessionId_def getLatestSessionSnapshot_def discoverNewId_def truthy_def)
  from t1 t2 x1 x2 show ?thesis by (simp add: exCodexFails_def exCodexSilent_def)
qed

section \<open>Registry codec\<close>

text \<open>
  Claim C4, as stated: for entries whose ids and labels are free of tabs and newlines,
  parsing the serialization gives the entries back. It fails for a label or an id with a
  space at one end, which comes back trimmed, for an empty label or id, whose line is
  dropped, and for an unpaired surrogate, which the file gives back as U+FFFD.
\<close>

theorem codec_round_trip_counterexample:
  "TAB \<notin> set (uuid exPadded) \<and> LF \<notin> set (uuid exPadded) \<and>
   TAB \<notin> set (label exPadded) \<and> LF \<notin> set (label exPadded) \<and>
   parseContent (serializeContent [exPadded]) = [\<lparr>uuid = js ''a'', label = js ''b''\<rparr>] \<and>
   parseContent (serializeContent [exPadded]) \<noteq> [exPadded] \<and>
   TAB \<notin> set (uuid exNoLabel) \<and> LF \<notin> set (uuid exNoLabel) \<and>
   TAB \<notin> set (label exNoLabel) \<and> LF \<notin> set (label exNoLabel) \<and>
   parseContent (serializeContent [exNoLabel]) = [] \<and>
   parseContent (serializeContent [exNoLabel]) \<noteq> [exNoLabel] \<and>
   TAB \<notin> set (uuid exPaddedId) \<and> LF \<notin> set (uuid exPaddedId) \<and>
   TAB \<notin> set (label exPaddedId) \<and> LF \<notin> set (label exPaddedId) \<and>
   parseContent (serializeContent [exPaddedId]) = [\<lparr>uuid = js ''a'', label = js ''b''\<rparr>] \<and>
   parseContent (serializeContent [exPaddedId]) \<noteq> [exPaddedId] \<and>
   TAB \<notin> set (uuid exNoId) \<and> LF \<notin> set (uuid exNoId) \<and>
   TAB \<notin> set (label exNoId) \<and> LF \<notin> set (label exNoId) \<and>
   parseContent (serializeContent [exNoId]) = [] \<and>
   parseContent (serializeContent [exNoId]) \<noteq> [exNoId] \<and>
   TAB \<notin> set (uuid exLone) \<and> LF \<notin> set (uuid exLone) \<and>
   TAB \<notin> set (label exLone) \<and> LF \<notin> set (label exLone) \<and>
   (case writeEntries exFiles exCdx [exLone] of
      Inl e \<Rightarrow> Inl e
    | Inr fs' \<Rightarrow> loadEntries fs' (Some exCdx)) = Inr [\<lparr>uuid = js ''a'', label = [0xFFFD]\<rparr>] \<and>
   (case writeEntries exFiles exCdx [exLone] of
      Inl e \<Rightarrow> Inl e
    | Inr fs' \<Rightarrow> loadEntries fs' (Some exCdx)) \<noteq> Inr [exLone]"
proof -
  have w: "writeEntries exFiles exCdx [exLone] =
             Inr (exFiles(exCdx \<mapsto> File (toWellFormed (serializeContent [exLone]))))"
    by (simp add: writeEntries_def writeFileSync_def exFiles_def exLone_def)
  have e: "toWellFormed (serializeContent [exLone]) = js ''a'' @ [TAB, 0xFFFD, LF]"
    by code_simp
  have q: "parseContent (js ''a'' @ [TAB, 0xFFFD, LF]) = [\<lparr>uuid = js ''a'', label = [0xFFFD]\<rparr>]"
    by code_simp
  have 5: "(case writeEntries exFiles exCdx [exLone] of
      Inl e \<Rightarrow> Inl e
    | Inr fs' \<Rightarrow> loadEntries fs' (Some exCdx)) = Inr [\<lparr>uuid = js ''a'', label = [0xFFFD]\<rparr>]"
    unfolding w e
    by (simp add: loadEntries_def existsSync_def readFileSync_def q)
  have 1: "parseContent (serializeContent [exPadded]) = [\<lparr>uuid = js ''a'', label = js ''b''\<rparr>]"
    by code_simp
  have 2: "parseContent (serializeContent [exNoLabel]) = []"
    by code_simp
  have 3: "parseContent (serializeContent [exPaddedId]) = [\<lparr>uuid = js ''a'', label = js ''b''\<rparr>]"
    by code_simp
  have 4: "parseContent (serializeContent [exNoId]) = []"
    by code_simp
  show ?thesis
    unfolding 1 2 3 4 5
    by (simp add: exPadded_def exNoLabel_def exPaddedId_def exNoId_def exLone_def str_defs)
qed

text \<open>
  Claim C4, amended: for entries whose ids and labels are free of tabs and newlines, not
  empty, without white space at either end and without unpaired surrogate, writing them
  to a registry path that is a file, or that is free in a directory that exists, succeeds,
  and loading the file gives the same sequence in the same order.
\<close>

theorem codec_round_trip:
  assumes "\<forall>e \<in> set es. wellFormed e"
    and "(\<exists>c. fs p = Some (File c)) \<or> (fs p = None \<and> createError fs p = None)"
  shows "\<exists>fs'. writeEntries fs p es = Inr fs' \<and> loadEntries fs' (Some p) = Inr es"
proof -
  from assms(1) have "\<forall>e \<in> set es. isWellFormed (uuid e) \<and> isWellFormed (label e)"
    by (simp add: wellFormed_def)
  then have "isWellFormed (serializeContent es)" by (rule isWellFormed_serializeContent)
  then have enc: "toWellFormed (serializeContent es) = serializeContent es"
    by (rule toWellFormed_id)
  have ld: "loadEntries (fs(p \<mapsto> File (serializeContent es))) (Some p) = Inr es"
    using assms(1) by (simp add: loadEntries_def existsSync_def readFileSync_def parse_serialize)
  from assms(2) show ?thesis
  proof
    assume "\<exists>c. fs p = Some (File c)"
    then obtain c where c: "fs p = Some (File c)" ..
    show ?thesis
    proof (cases "es = []")
      case True
      with writeEntries_result [where fs = fs and p = p and es = es, OF c] show ?thesis
        by (simp add: loadEntries_def existsSync_def)
    next
      case False
      with writeEntries_result [where fs = fs and p = p and es = es, OF c] enc ld show ?thesis by simp
    qed
  next
    assume n: "fs p = None \<and> createError fs p = None"
    show ?thesis
    proof (cases "es = []")
      case True
      with n writeEntries_create [where fs = fs and p = p and es = es] show ?thesis
        by (simp add: loadEntries_def existsSync_def)
    next
      case False
      with n writeEntries_create [where fs = fs and p = p and es = es] enc ld show ?thesis by simp
    qed
  qed
qed

theorem codec_round_trip_witness:
  "wellFormed exEntry1 \<and> wellFormed exEntry2 \<and> wellFormed exPair \<and>
   exEmptyDir exCdx = None \<and> createError exEmptyDir exCdx = None \<and>
   (\<exists>fs'. writeEntries exEmptyDir exCdx [exEntry1, exEntry2, exPair] = Inr fs' \<and>
          loadEntries fs' (Some exCdx) = Inr [exEntry1, exEntry2, exPair])"
proof -
  have w: "wellFormed exEntry1 \<and> wellFormed exEntry2 \<and> wellFormed exPair"
    by (simp add: wellFormed_def trimmed_def isWhiteSpace_def isHighSurrogate_def
        isLowSurrogate_def exEntry1_def exEntry2_def exPair_def str_defs)
  then have a: "\<forall>e \<in> set [exEntry1, exEntry2, exPair]. wellFormed e" by simp
  have n: "exEmptyDir exCdx = None \<and> createError exEmptyDir exCdx = None"
    by (simp add: exEmptyDir_def exCdx_def exDir_def createError_def dirname_def js_def)
  then have b: "(\<exists>c. exEmptyDir exCdx = Some (File c)) \<or>
                (exEmptyDir exCdx = None \<and> createError exEmptyDir exCdx = None)"
    by simp
  from w n codec_round_trip [OF a b] show ?thesis by blast
qed

text \<open>
  Claim C5. For a file whose text is a sequence of lines, valid or malformed, loading
  raises no error and returns exactly the entries of the valid lines, in their order;
  every other line is dropped.
\<close>

theorem parse_drops_malformed:
  assumes "\<forall>l \<in> set ls. LF \<notin> set l"
    and "fs p = Some (File (join_str [LF] ls))"
  shows "loadEntries fs (Some p) = Inr (map entryOfLine (filter validLine ls))"
  using assms
  by (simp add: loadEntries_def existsSync_def readFileSync_def parseContent_join)

theorem parse_drops_malformed_witness:
  "loadEntries (Map.empty(exCdx \<mapsto> File (join_str [LF] exLines))) (Some exCdx) =
     Inr [exEntry1, exEntry2]"
proof -
  have a: "\<forall>l \<in> set exLines. LF \<notin> set l"
    by (simp add: exLines_def str_defs)
  have b: "(Map.empty(exCdx \<mapsto> File (join_str [LF] exLines))) exCdx = Some (File (join_str [LF] exLines))"
    by simp
  have c: "map entryOfLine (filter validLine exLines) = [exEntry1, exEntry2]"
    by code_simp
  from parse_drops_malformed
         [where fs = "Map.empty(exCdx \<mapsto> File (join_str [LF] exLines))" and p = exCdx, OF a b]
  show ?thesis by (simp only: c)
qed

section \<open>Directory resolver\<close>

text \<open>
  Claim C6. With the flag \<^verbatim>\<open>here\<close> the starting directory is the only candidate and
  no ancestor is consulted; a registry present there should be found and its entries
  loaded. The path of the registry is the one in the starting directory, but its entries
  are not loaded: in directory \<open>A\<close>, whose registry holds one entry, the list of entries
  is empty with the flag, and holds the entry without it.
\<close>

theorem here_mode_loads_nothing:
  "entries (resolveDefault exFiles exDir True) = Inr [] \<and>
   foundCdx (resolveDefault exFiles exDir True) = None \<and>
   cdxPath (resolveDefault exFiles exDir True) = exCdx \<and>
   loadEntries exFiles (Some exCdx) = Inr [exEntry1] \<and>
   entries (resolveDefault exFiles exDir False) = Inr [exEntry1]"
proof -
  have l: "loadEntries exFiles (Some exCdx) = Inr [exEntry1]" by code_simp
  have f: "findCdxFile exFiles exDir = Some \<lparr>dir = exDir, filePath = exCdx\<rparr>"
    by (simp add: exFiles_def exDir_def exCdx_def findCdxFile.simps join_path_def existsSync_def str_defs)
  have n: "loadEntries exFiles None = Inr []" by (simp add: loadEntries_def)
  have j: "join_path exDir CDX_FILENAME = exCdx"
    by (simp add: exDir_def exCdx_def join_path_def CDX_FILENAME_def)
  show ?thesis
    by (simp add: resolveDefault_def f l n j)
qed

text \<open>
  Claim C7. \<open>findCdxFile\<close> returns the registry of the nearest directory among the
  starting directory and its ancestors: the directory it returns is the starting one or
  an ancestor and holds a registry file, and no directory between the two holds one; it
  returns nothing exactly when no directory up to the root holds one.
\<close>

theorem findCdxFile_nearest:
  "(case findCdxFile fs d of
      None \<Rightarrow> \<forall>a. prefix a d \<longrightarrow> \<not> existsSync fs (join_path a CDX_FILENAME)
    | Some f \<Rightarrow>
        prefix (dir f) d \<and> filePath f = join_path (dir f) CDX_FILENAME \<and>
        existsSync fs (filePath f) \<and>
        (\<forall>a. prefix a d \<and> length (dir f) < length a \<longrightarrow>
             \<not> existsSync fs (join_path a CDX_FILENAME)))"
proof (induction d rule: rev_induct)
  case Nil
  show ?case by (simp add: findCdxFile_root)
next
  case (snoc x xs)
  show ?case
  proof (cases "existsSync fs (join_path (xs @ [x]) CDX_FILENAME)")
    case True
    then show ?thesis
      by (auto simp: findCdxFile_step dest: prefix_length_le)
  next
    case False
    with snoc show ?thesis
      by (auto simp: findCdxFile_step prefix_snoc split: option.splits)
  qed
qed

theorem findCdxFile_nearest_witness:
  "findCdxFile exFiles exDeep = Some \<lparr>dir = exDir, filePath = exCdx\<rparr> \<and>
   \<not> existsSync exFiles (join_path [js ''A'', js ''B''] CDX_FILENAME) \<and>
   findCdxFile exFiles [js ''B'', js ''C''] = None \<and>
   \<not> existsSync exFiles (join_path [js ''B''] CDX_FILENAME)"
proof -
  have f: "findCdxFile exFiles exDeep = Some \<lparr>dir = exDir, filePath = exCdx\<rparr>"
    by (simp add: exFiles_def exDir_def exDeep_def exCdx_def findCdxFile.simps join_path_def dirname_def existsSync_def str_defs)
  have g: "findCdxFile exFiles [js ''B'', js ''C''] = None"
    by (simp add: exFiles_def exDir_def exDeep_def exCdx_def findCdxFile.simps join_path_def dirname_def existsSync_def str_defs)
  have p1: "prefix [js ''A'', js ''B''] exDeep \<and> length exDir < length [js ''A'', js ''B'']"
    by (simp add: exDeep_def exDir_def)
  have p2: "prefix [js ''B''] [js ''B'', js ''C'']" by simp
  from findCdxFile_nearest [where fs = exFiles and d = exDeep] f p1
  have "\<not> existsSync exFiles (join_path [js ''A'', js ''B''] CDX_FILENAME)" by simp
  moreover from findCdxFile_nearest [where fs = exFiles and d = "[js ''B'', js ''C'']"] g p2
  have "\<not> existsSync exFiles (join_path [js ''B''] CDX_FILENAME)" by simp
  ultimately show ?thesis using f g by simp
qed

section \<open>Removal\<close>

text \<open>
  Claim C8. Removing an entry deletes the registry file when no entry remains, and
  writes the remaining entries as the whole file otherwise. What is written is the
  serialization encoded as UTF-8, which is the serialization itself whenever the text of
  the registry was well formed, as the text decoded from a file is.
\<close>

theorem runRemove_rewrites_or_deletes:
  assumes "findCdxFile fs startDir = Some f"
    and "fs (filePath f) = Some (File content)"
    and "i < length (parseContent content)"
    and "remaining = filter (\<lambda>e. uuid e \<noteq> uuid (parseContent content ! i)) (parseContent content)"
  shows "runRemove fs startDir (Some i) =
           \<lparr>control = Return, console = [],
            filesAfter = (if remaining = [] then fs(filePath f := None)
                          else fs(filePath f \<mapsto> File (toWellFormed (serializeContent remaining))))\<rparr> \<and>
         (isWellFormed content \<longrightarrow> toWellFormed (serializeContent remaining) = serializeContent remaining)"
proof -
  from assms(2) have l: "loadEntries fs (Some (filePath f)) = Inr (parseContent content)"
    by (simp add: loadEntries_def existsSync_def readFileSync_def)
  from assms(3) have ne: "parseContent content \<noteq> []" by auto
  from assms(2) have w: "writeEntries fs (filePath f) remaining =
      Inr (if remaining = [] then fs(filePath f := None)
           else fs(filePath f \<mapsto> File (toWellFormed (serializeContent remaining))))"
    by (rule writeEntries_result)
  have run: "runRemove fs startDir (Some i) =
           \<lparr>control = Return, console = [],
            filesAfter = (if remaining = [] then fs(filePath f := None)
                          else fs(filePath f \<mapsto> File (toWellFormed (serializeContent remaining))))\<rparr>"
    using assms(1,3) ne l w [unfolded assms(4)]
    by (simp add: runRemove_def Let_def assms(4))
  have "toWellFormed (serializeContent remaining) = serializeContent remaining"
    if "isWellFormed content"
  proof -
    from that have "\<forall>e \<in> set remaining. isWellFormed (uuid e) \<and> isWellFormed (label e)"
      by (auto simp: assms(4) dest: parseContent_isWellFormed)
    then have "isWellFormed (serializeContent remaining)" by (rule isWellFormed_serializeContent)
    then show ?thesis by (rule toWellFormed_id)
  qed
  with run show ?thesis by blast
qed

theorem runRemove_rewrites_or_deletes_witness:
  "runRemove exFiles exDir (Some 0) =
     \<lparr>control = Return, console = [], filesAfter = exFiles(exCdx := None)\<rparr> \<and>
   (exFiles(exCdx := None)) exCdx = None \<and>
   runRemove exFiles2 exDir (Some 0) =
     \<lparr>control = Return, console = [],
      filesAfter = exFiles2(exCdx \<mapsto> File (js ''u2'' @ [TAB] @ js ''code review'' @ [LF]))\<rparr>"
proof -
  let ?f = "\<lparr>dir = exDir, filePath = exCdx\<rparr>"
  let ?c1 = "js ''u1'' @ [TAB] @ js ''dev'' @ [LF]"
  let ?c2 = "js ''u1'' @ [TAB] @ js ''dev'' @ [LF] @ js ''u2'' @ [TAB] @ js ''code review'' @ [LF]"
  have f1: "findCdxFile exFiles exDir = Some ?f"
    by (simp add: exFiles_def exFiles2_def exDir_def exCdx_def findCdxFile.simps join_path_def existsSync_def str_defs)
  have f2: "findCdxFile exFiles2 exDir = Some ?f"
    by (simp add: exFiles_def exFiles2_def exDir_def exCdx_def findCdxFile.simps join_path_def existsSync_def str_defs)
  have c1: "exFiles (filePath ?f) = Some (File ?c1)" by (simp add: exFiles_def)
  have c2: "exFiles2 (filePath ?f) = Some (File ?c2)" by (simp add: exFiles2_def)
  have p1: "parseContent ?c1 = [exEntry1]" by code_simp
  have p2: "parseContent ?c2 = [exEntry1, exEntry2]" by code_simp
  have i1: "0 < length (parseContent ?c1)" by (simp only: p1) simp
  have i2: "0 < length (parseContent ?c2)" by (simp only: p2) simp
  have r1: "[] = filter (\<lambda>e. uuid e \<noteq> uuid (parseContent ?c1 ! 0)) (parseContent ?c1)"
    by (simp only: p1) simp
  have r2: "[exEntry2] = filter (\<lambda>e. uuid e \<noteq> uuid (parseContent ?c2 ! 0)) (parseContent ?c2)"
    by (simp only: p2) (simp add: exEntry1_def exEntry2_def js_def)
  have s2: "toWellFormed (serializeContent [exEntry2]) =
              js ''u2'' @ [TAB] @ js ''code review'' @ [LF]"
    by code_simp
  from runRemove_rewrites_or_deletes [OF f1 c1 i1 r1]
       runRemove_rewrites_or_deletes [OF f2 c2 i2 r2]
  show ?thesis by (simp add: s2)
qed

section \<open>Label sanitization\<close>

text \<open>
  Claim C9. Sanitizing a label twice gives the same as sanitizing it once.
\<close>

theorem sanitizeLabel_idempotent: "sanitizeLabel (sanitizeLabel s) = sanitizeLabel s"
proof -
  have "replaceRuns (sanitizeLabel s) = sanitizeLabel s"
    by (rule replaceRuns_id) (blast dest: sanitizeLabel_clean)
  then have "sanitizeLabel (sanitizeLabel s) = trim (sanitizeLabel s)"
    by (simp add: sanitizeLabel_def)
  also have "\<dots> = sanitizeLabel s"
    by (simp add: sanitizeLabel_def trim_idem)
  finally show ?thesis .
qed

theorem sanitizeLabel_idempotent_witness: "sanitizeLabel (sanitizeLabel ([TAB] @ js ''a'' @ [CR, LF] @ js ''b ''))
               = js ''a b''"
proof -
  have "sanitizeLabel ([TAB] @ js ''a'' @ [CR, LF] @ js ''b '') = js ''a b''"
    by code_simp
  with sanitizeLabel_idempotent [of "[TAB] @ js ''a'' @ [CR, LF] @ js ''b ''"]
  show ?thesis by simp
qed

section \<open>Loading a missing registry\<close>

text \<open>
  Claim C10. Loading from a path that is null or undefined, or that names no file, gives
  the empty sequence and no error, as loading an empty registry file does.
\<close>

theorem loadEntries_missing:
  assumes "fp = None \<or> (\<exists>p. fp = Some p \<and> \<not> existsSync fs p)"
  shows "loadEntries fs fp = Inr [] \<and>
         loadEntries fs fp = loadEntries (fs(q \<mapsto> File [])) (Some q)"
proof -
  have "split_str LF [] = [[]]" by (simp add: split_str_no_sep)
  then have e: "loadEntries (fs(q \<mapsto> File [])) (Some q) = Inr []"
    by (simp add: loadEntries_def existsSync_def readFileSync_def parseContent_def)
  from assms have "loadEntries fs fp = Inr []"
    by (auto simp: loadEntries_def)
  with e show ?thesis by simp
qed

theorem loadEntries_missing_witness:
  "loadEntries exFiles None = Inr [] \<and>
   \<not> existsSync exFiles [js ''B'', js ''.cdx''] \<and>
   loadEntries exFiles (Some [js ''B'', js ''.cdx'']) = Inr []"
proof -
  have n: "\<not> existsSync exFiles [js ''B'', js ''.cdx'']"
    by (simp add: existsSync_def exFiles_def exCdx_def js_def)
  have a: "None = None \<or> (\<exists>p. (None :: path option) = Some p \<and> \<not> existsSync exFiles p)"
    by simp
  from n have b: "Some [js ''B'', js ''.cdx''] = None \<or>
      (\<exists>p. Some [js ''B'', js ''.cdx''] = Some p \<and> \<not> existsSync exFiles p)"
    by simp
  from loadEntries_missing [OF a] loadEntries_missing [OF b] n show ?thesis by simp
qed

end
